theory Spec2Isabelle
  imports Main "HOL-Library.Multiset"
begin

section \<open>Python strings and paths\<close>

text \<open>
  \<^verbatim>\<open>s.replace(old, new)\<close> replaces the occurrences of \<open>old\<close> in \<open>s\<close>, leftmost first and
  without overlap. For an empty \<open>old\<close>, Python puts \<open>new\<close> before every character and at
  the end.
\<close>

fun py_replace :: "string \<Rightarrow> string \<Rightarrow> string \<Rightarrow> string" where
  "py_replace [] new s = new @ concat (map (\<lambda>c. c # new) s)"
| "py_replace (a # old) new [] = []"
| "py_replace (a # old) new (c # cs) =
     (if c = a \<and> take (length old) cs = old
      then new @ py_replace (a # old) new (drop (length old) cs)
      else c # py_replace (a # old) new cs)"

text \<open>
  \<^verbatim>\<open>s.lower()\<close>. A \<open>char\<close> is a byte, and the letters \<^verbatim>\<open>A\<close> to \<^verbatim>\<open>Z\<close> are lowered as
  Python lowers them. Python also lowers the letters outside ASCII; their bytes are left
  as they are here, so for a stem with such letters the name below is not Python's. The
  name only says under which key the session holds the table.
\<close>

definition py_lower :: "string \<Rightarrow> string" where
  "py_lower s =
     map (\<lambda>c. let n = (of_char c :: nat) in if 65 \<le> n \<and> n \<le> 90 then char_of (n + 32) else c) s"

text \<open>
  A \<^verbatim>\<open>pathlib.Path\<close> is represented by its POSIX text (\<^verbatim>\<open>as_posix()\<close>). \<^verbatim>\<open>Path.name\<close> is
  the text after the last \<^verbatim>\<open>/\<close>; \<^verbatim>\<open>Path.stem\<close> is the name without its last suffix:
  \<^verbatim>\<open>i = name.rfind('.'); name[:i] if 0 < i < len(name) - 1 else name\<close>.
\<close>

definition path_name :: "string \<Rightarrow> string" where
  "path_name p = rev (takeWhile (\<lambda>c. c \<noteq> CHR ''/'') (rev p))"

definition path_stem :: "string \<Rightarrow> string" where
  "path_stem p =
     (let name = path_name p;
          after_dot = length (takeWhile (\<lambda>c. c \<noteq> CHR ''.'') (rev name))
      in if CHR ''.'' \<in> set name \<and> 0 < after_dot \<and> after_dot + 1 < length name
         then take (length name - 1 - after_dot) name
         else name)"

text \<open>\<^verbatim>\<open>os.path.join(a, b)\<close> for two components, with the POSIX separator.\<close>

definition os_path_join :: "string \<Rightarrow> string \<Rightarrow> string" where
  "os_path_join a b =
     (if b \<noteq> [] \<and> hd b = CHR ''/'' then b
      else if a = [] \<or> last a = CHR ''/'' then a @ b
      else a @ ''/'' @ b)"

subsection \<open>Decimal text\<close>

definition digit_char :: "nat \<Rightarrow> char" where
  "digit_char d = ''0123456789'' ! (d mod 10)"

fun show_nat :: "nat \<Rightarrow> string" where
  "show_nat n =
     (if n < 10 then [digit_char n] else show_nat (n div 10) @ [digit_char (n mod 10)])"

definition show_int :: "int \<Rightarrow> string" where
  "show_int i = (if i < 0 then CHR ''-'' # show_nat (nat (- i)) else show_nat (nat i))"

definition digit_val :: "char \<Rightarrow> nat" where
  "digit_val c = length (takeWhile (\<lambda>d. d \<noteq> c) ''0123456789'')"

text \<open>
  \<^verbatim>\<open>datetime.today().strftime("%Y-%m-%d_%H-%M-%S")\<close>: the year on four digits, the other
  fields on two, zero-filled. (For years below 1000 the C library decides whether
  \<^verbatim>\<open>%Y\<close> is filled; the clock of a running program is past that.)
\<close>

record datetime =
  year :: nat
  month :: nat
  day :: nat
  hour :: nat
  minute :: nat
  second :: nat

definition zero_fill :: "nat \<Rightarrow> nat \<Rightarrow> string" where
  "zero_fill width n = replicate (width - length (show_nat n)) (CHR ''0'') @ show_nat n"

definition strftime :: "datetime \<Rightarrow> string" where
  "strftime d =
     zero_fill 4 (year d) @ ''-'' @ zero_fill 2 (month d) @ ''-'' @ zero_fill 2 (day d) @ ''_''
       @ zero_fill 2 (hour d) @ ''-'' @ zero_fill 2 (minute d) @ ''-'' @ zero_fill 2 (second d)"

section \<open>Values, rows and the table's columns\<close>

datatype val = Null | Text string | Integer int | Geometry string

type_synonym row = "val list"

text \<open>A cell of a row by position; a position outside the row reads as \<open>Null\<close>.\<close>

definition cell :: "nat \<Rightarrow> row \<Rightarrow> val" where
  "cell i r = (if i < length r then r ! i else Null)"

definition int_cell :: "nat \<Rightarrow> row \<Rightarrow> int" where
  "int_cell i r = (case cell i r of Integer n \<Rightarrow> n | _ \<Rightarrow> 0)"

datatype sqltype = TVarchar nat | TChar nat | TInteger | TEnum string | TGeometry

text \<open>A column: its name, its type, and whether it is \<^verbatim>\<open>NOT NULL\<close>.\<close>

type_synonym column = "string \<times> sqltype \<times> bool"

text \<open>The column list of the \<^verbatim>\<open>CREATE TABLE\<close> command in \<^verbatim>\<open>create_table_from_csv\<close>.\<close>

definition table_columns :: "column list" where
  "table_columns =
    [(''vin'', TVarchar 10, True),
     (''county'', TVarchar 40, True),
     (''city'', TVarchar 40, True),
     (''state'', TVarchar 2, True),
     (''postal_code'', TChar 5, True),
     (''model_year'', TInteger, True),
     (''make'', TVarchar 30, True),
     (''model'', TVarchar 30, False),
     (''electric_vehicle_type'', TEnum ''ElectricVehicleType'', True),
     (''cafv_eligibility'', TEnum ''CAFVEligibility'', True),
     (''electric_range'', TInteger, True),
     (''base_msrp'', TInteger, True),
     (''legislative_district'', TInteger, False),
     (''dol_vehicle_id'', TVarchar 9, True),
     (''vehicle_location'', TGeometry, False),
     (''electric_utility'', TVarchar 200, False),
     (''census_tract_2000'', TChar 11, True)]"

definition col_index :: "string \<Rightarrow> nat" where
  "col_index name = length (takeWhile (\<lambda>c. fst c \<noteq> name) table_columns)"

definition column :: "string \<Rightarrow> row \<Rightarrow> val" where
  "column name r = cell (col_index name) r"

definition project :: "string list \<Rightarrow> row \<Rightarrow> row" where
  "project names r = map (\<lambda>n. column n r) names"

section \<open>The database engine\<close>

text \<open>
  DuckDB is not part of the program. What the program relies on is modelled here: the
  meaning of the SQL it sends. Three things are the engine's own and stay parameters:
  \<^item> \<open>arrange\<close>: the order in which rows come out where the SQL fixes none (no
    \<^verbatim>\<open>ORDER BY\<close>, or ties under one). A correct engine only permutes (\<open>engine_ok\<close>);
  \<^item> \<open>cast_integer\<close>: the conversion of CSV text to \<^verbatim>\<open>INTEGER\<close>;
  \<^item> \<open>is_geometry\<close>: whether CSV text converts to \<^verbatim>\<open>GEOMETRY\<close>.
\<close>

record engine =
  arrange :: "row list \<Rightarrow> row list"
  cast_integer :: "string \<Rightarrow> int option"
  is_geometry :: "string \<Rightarrow> bool"

definition engine_ok :: "engine \<Rightarrow> bool" where
  "engine_ok e = (\<forall>rows. mset (arrange e rows) = mset rows)"

subsection \<open>Relational operators\<close>

definition count_rows :: "('a \<Rightarrow> bool) \<Rightarrow> 'a list \<Rightarrow> int" where
  "count_rows P rows = int (length (filter P rows))"

text \<open>\<^verbatim>\<open>SELECT key, COUNT(*) ... GROUP BY key\<close>: one row per distinct key, the count last.\<close>

definition group_count :: "('a \<Rightarrow> row) \<Rightarrow> 'a list \<Rightarrow> row list" where
  "group_count key rows =
     map (\<lambda>k. k @ [Integer (count_rows (\<lambda>r. key r = k) rows)]) (remdups (map key rows))"

text \<open>\<^verbatim>\<open>ORDER BY c DESC\<close> on the integer column at position \<open>i\<close>; equal keys keep their order.\<close>

definition order_by_desc :: "nat \<Rightarrow> row list \<Rightarrow> row list" where
  "order_by_desc i rows = sort_key (\<lambda>r. - int_cell i r) rows"

text \<open>
  \<^verbatim>\<open>ROW_NUMBER() OVER (PARTITION BY p ORDER BY c DESC)\<close>: within each partition the rows
  are ordered and numbered from 1; the number is appended to the row.
\<close>

definition number_rows :: "row list \<Rightarrow> row list" where
  "number_rows rows = map (\<lambda>(i, r). r @ [Integer (int i)]) (enumerate 1 rows)"

definition row_number_over :: "nat \<Rightarrow> nat \<Rightarrow> row list \<Rightarrow> row list" where
  "row_number_over p c rows =
     concat (map (\<lambda>k. number_rows (order_by_desc c (filter (\<lambda>r. cell p r = k) rows)))
                 (remdups (map (cell p) rows)))"

subsection \<open>The four queries of \<^verbatim>\<open>collect_information\<close>\<close>

text \<open>\<^verbatim>\<open>SELECT city, COUNT(*) as electric_vehicle_amount FROM t GROUP BY city\<close>\<close>

definition vehicles_per_city :: "engine \<Rightarrow> row list \<Rightarrow> row list" where
  "vehicles_per_city e t = arrange e (group_count (project [''city'']) t)"

text \<open>
  \<^verbatim>\<open>SELECT make, model, COUNT(*) as vehicle_amount FROM t GROUP BY make, model
     ORDER BY vehicle_amount DESC LIMIT 3\<close>
\<close>

definition three_most_popular_vehicles :: "engine \<Rightarrow> row list \<Rightarrow> row list" where
  "three_most_popular_vehicles e t =
     take 3 (order_by_desc 2 (arrange e (group_count (project [''make'', ''model'']) t)))"

text \<open>
  \<^verbatim>\<open>SELECT postal_code, make, model, vehicle_count FROM (
       SELECT postal_code, make, model, COUNT(*) as vehicle_count,
              ROW_NUMBER() OVER (PARTITION BY postal_code ORDER BY COUNT(*) DESC) as row_num
       FROM t GROUP BY postal_code, make, model) AS ranked
     WHERE row_num = 1 ORDER BY vehicle_count DESC\<close>
\<close>

definition most_popular_vehicle_per_postal_code :: "engine \<Rightarrow> row list \<Rightarrow> row list" where
  "most_popular_vehicle_per_postal_code e t =
     (let ranked = row_number_over 0 3
                     (arrange e (group_count (project [''postal_code'', ''make'', ''model'']) t));
          top = filter (\<lambda>r. int_cell 4 r = 1) ranked
      in order_by_desc 3 (arrange e (map (take 4) top)))"

text \<open>\<^verbatim>\<open>SELECT model_year, COUNT(*) as vehicle_amount FROM t GROUP BY model_year\<close>\<close>

definition vehicles_per_model_year :: "engine \<Rightarrow> row list \<Rightarrow> row list" where
  "vehicles_per_model_year e t = arrange e (group_count (project [''model_year'']) t)"

datatype query =
  VehiclesPerCity | ThreeMostPopularVehicles | MostPopularVehiclePerPostalCode
  | VehiclesPerModelYear

fun run_query :: "engine \<Rightarrow> query \<Rightarrow> row list \<Rightarrow> row list" where
  "run_query e VehiclesPerCity t = vehicles_per_city e t"
| "run_query e ThreeMostPopularVehicles t = three_most_popular_vehicles e t"
| "run_query e MostPopularVehiclePerPostalCode t = most_popular_vehicle_per_postal_code e t"
| "run_query e VehiclesPerModelYear t = vehicles_per_model_year e t"

fun query_columns :: "query \<Rightarrow> string list" where
  "query_columns VehiclesPerCity = [''city'', ''electric_vehicle_amount'']"
| "query_columns ThreeMostPopularVehicles = [''make'', ''model'', ''vehicle_amount'']"
| "query_columns MostPopularVehiclePerPostalCode =
     [''postal_code'', ''make'', ''model'', ''vehicle_count'']"
| "query_columns VehiclesPerModelYear = [''model_year'', ''vehicle_amount'']"

subsection \<open>Partitioned output\<close>

text \<open>
  Modelled from the spec: the layout of a partitioned export, which the engine writes and
  which is not under \<^verbatim>\<open>src/\<close>. By section 4.5 of the spec, \<^verbatim>\<open>PARTITION_BY(c)\<close> writes one
  file group per distinct value of the column beneath the path, each sub-group named by
  the partition value, \<^verbatim>\<open>c=<value>\<close> (as in \<^verbatim>\<open>model_year=2020\<close>), holding the rows with that
  value.
\<close>

definition partition_value :: "val \<Rightarrow> string" where
  "partition_value v =
     (case v of Integer n \<Rightarrow> show_int n | Text s \<Rightarrow> s | Geometry g \<Rightarrow> g
      | Null \<Rightarrow> ''__HIVE_DEFAULT_PARTITION__'')"

definition hive_partitions :: "string \<Rightarrow> nat \<Rightarrow> row list \<Rightarrow> (string \<times> row list) list" where
  "hive_partitions name i rows =
     map (\<lambda>v. (name @ ''='' @ partition_value v, filter (\<lambda>r. cell i r = v) rows))
         (remdups (map (cell i) rows))"

section \<open>Files, the session and the commands\<close>

text \<open>
  A file system is a list of entries, the first entry for a path being the current one.
  Paths are compared as written. A CSV file is held as its records, each a list of
  fields, the header first; a Parquet file as its rows.
\<close>

datatype content = Csv "string list list" | Parquet "row list"

datatype node = File content | Directory

type_synonym filesystem = "(string \<times> node) list"

definition parent_dir :: "string \<Rightarrow> string" where
  "parent_dir p = rev (drop 1 (dropWhile (\<lambda>c. c \<noteq> CHR ''/'') (rev p)))"

definition dir_has_entries :: "string \<Rightarrow> filesystem \<Rightarrow> bool" where
  "dir_has_entries d fs = list_ex (\<lambda>(p, n). take (length d + 1) p = d @ ''/'') fs"

text \<open>The exceptions of DuckDB and of \<^verbatim>\<open>os.makedirs\<close> that the model raises.\<close>

datatype error =
  CatalogException | BinderException | ConversionException | ConstraintException
  | InvalidInputException | IOException | FileExistsError | NotADirectoryError

text \<open>
  The program builds SQL text and hands it to \<^verbatim>\<open>conn.execute\<close>. A command is represented
  by its abstract syntax; the names and paths that the f-strings interpolate are the
  arguments of the constructors.
  \<^item> \<open>CreateEnum name csv col\<close> is
    \<^verbatim>\<open>CREATE TYPE name as ENUM (FROM read_csv('csv', AUTO_DETECT=true)
       SELECT DISTINCT "col" WHERE "col" IS NOT NULL);\<close>
  \<^item> \<open>CreateTable name\<close> is \<^verbatim>\<open>CREATE TABLE name (...)\<close> with the columns \<open>table_columns\<close>;
  \<^item> \<open>CopyFrom name csv\<close> is \<^verbatim>\<open>COPY name FROM 'csv' WITH (HEADER 1, DELIMITER ',');\<close>
  \<^item> \<open>CopyTo q name path\<close> is \<^verbatim>\<open>COPY (q on name) TO 'path' (FORMAT 'PARQUET');\<close>
  \<^item> \<open>CopyToPartitioned q name path c\<close> is
    \<^verbatim>\<open>COPY (q on name) TO 'path' (FORMAT 'PARQUET', PARTITION_BY(c));\<close>
\<close>

datatype command =
  CreateEnum string string string
  | CreateTable string
  | CopyFrom string string
  | CopyTo query string string
  | CopyToPartitioned query string string string

fun command_type_name :: "command \<Rightarrow> string" where
  "command_type_name (CreateEnum name csv col) = name"
| "command_type_name _ = []"

text \<open>
  What a run can be observed to do, in order: each \<^verbatim>\<open>os.makedirs\<close> call and each
  \<^verbatim>\<open>conn.execute\<close> call, with the exception it raised if any.
\<close>

datatype event = Makedirs string "error option" | Executed command "error option"

record world =
  types :: "string \<rightharpoonup> string list"
  tables :: "string \<rightharpoonup> row list"
  files :: filesystem
  clock :: datetime
  trace :: "event list"

text \<open>
  A call returns a value or raises, and leaves a world behind either way. \<open>bind_io\<close> is
  the sequencing of two Python statements: an exception of the first skips the second.
\<close>

type_synonym 'a io = "world \<Rightarrow> (error + 'a) \<times> world"

definition bind_io :: "'a io \<Rightarrow> ('a \<Rightarrow> 'b io) \<Rightarrow> 'b io" where
  "bind_io m f w = (case m w of (Inl err, w') \<Rightarrow> (Inl err, w') | (Inr x, w') \<Rightarrow> f x w')"

definition return_io :: "'a \<Rightarrow> 'a io" where
  "return_io x w = (Inr x, w)"

definition outcome :: "error + 'a \<Rightarrow> error option" where
  "outcome r = (case r of Inl err \<Rightarrow> Some err | Inr x \<Rightarrow> None)"

subsection \<open>Reading the CSV source\<close>

text \<open>An empty field is the null marker.\<close>

definition field_value :: "string \<Rightarrow> val" where
  "field_value s = (if s = [] then Null else Text s)"

text \<open>
  \<^verbatim>\<open>FROM read_csv(csv) SELECT "col"\<close>: the column named \<open>col\<close> in the header, one value per
  data record. A missing file, a missing column and a record whose number of fields
  differs from the header's are errors.
\<close>

definition header_index :: "string \<Rightarrow> string list \<Rightarrow> nat" where
  "header_index col header = length (takeWhile (\<lambda>h. h \<noteq> col) header)"

definition read_csv_column :: "filesystem \<Rightarrow> string \<Rightarrow> string \<Rightarrow> error + val list" where
  "read_csv_column fs csv col =
     (case map_of fs csv of
        Some (File (Csv recs)) \<Rightarrow>
          (case recs of
             [] \<Rightarrow> Inl BinderException
           | header # data \<Rightarrow>
               if \<not> list_all (\<lambda>l. length l = length header) data then Inl InvalidInputException
               else if col \<notin> set header then Inl BinderException
               else Inr (map (\<lambda>l. field_value (l ! header_index col header)) data))
      | _ \<Rightarrow> Inl IOException)"

text \<open>\<^verbatim>\<open>SELECT DISTINCT "col" WHERE "col" IS NOT NULL\<close>, as the labels of the new type.\<close>

definition enum_labels :: "engine \<Rightarrow> val list \<Rightarrow> string list" where
  "enum_labels e vals =
     concat (map (\<lambda>r. case r of [Text s] \<Rightarrow> [s] | _ \<Rightarrow> [])
                 (arrange e (map (\<lambda>v. [v]) (remdups (filter (\<lambda>v. v \<noteq> Null) vals)))))"

subsection \<open>Loading records into the table\<close>

definition convert_field ::
  "engine \<Rightarrow> (string \<rightharpoonup> string list) \<Rightarrow> column \<Rightarrow> string \<Rightarrow> error + val" where
  "convert_field e tys c s =
     (case c of (name, ty, not_null) \<Rightarrow>
        if s = [] then (if not_null then Inl ConstraintException else Inr Null)
        else (case ty of
                TVarchar n \<Rightarrow> Inr (Text s)
              | TChar n \<Rightarrow> Inr (Text s)
              | TInteger \<Rightarrow>
                  (case cast_integer e s of
                     None \<Rightarrow> Inl ConversionException
                   | Some i \<Rightarrow> Inr (Integer i))
              | TEnum tn \<Rightarrow>
                  (case tys tn of
                     None \<Rightarrow> Inl CatalogException
                   | Some labels \<Rightarrow>
                       if s \<in> set labels then Inr (Text s) else Inl ConversionException)
              | TGeometry \<Rightarrow>
                  if is_geometry e s then Inr (Geometry s) else Inl ConversionException))"

fun collect :: "(error + 'a) list \<Rightarrow> error + 'a list" where
  "collect [] = Inr []"
| "collect (Inl err # rs) = Inl err"
| "collect (Inr x # rs) = (case collect rs of Inl err \<Rightarrow> Inl err | Inr xs \<Rightarrow> Inr (x # xs))"

definition convert_row ::
  "engine \<Rightarrow> (string \<rightharpoonup> string list) \<Rightarrow> string list \<Rightarrow> error + row" where
  "convert_row e tys line =
     (if length line \<noteq> length table_columns then Inl InvalidInputException
      else collect (map (\<lambda>(c, s). convert_field e tys c s) (zip table_columns line)))"

subsection \<open>Writing files\<close>

definition is_file :: "filesystem \<Rightarrow> string \<Rightarrow> bool" where
  "is_file fs p = (case map_of fs p of Some (File c) \<Rightarrow> True | _ \<Rightarrow> False)"

definition write_file :: "string \<Rightarrow> content \<Rightarrow> filesystem \<Rightarrow> error + filesystem" where
  "write_file p c fs =
     (if map_of fs p = Some Directory then Inl IOException
      else if parent_dir p \<noteq> [] \<and> map_of fs (parent_dir p) \<noteq> Some Directory
      then Inl IOException
      else Inr ((p, File c) # fs))"

text \<open>
  Modelled from the spec: the writing of the sub-groups of a partitioned export (section
  4.5; the engine is not under \<^verbatim>\<open>src/\<close>). The target becomes a directory, and each
  sub-group a directory below it with one file of its rows. The write is refused when the
  target is a regular file, when the directory above it is missing, and when the target
  already has entries.
\<close>

definition write_partitions ::
  "string \<Rightarrow> (string \<times> row list) list \<Rightarrow> filesystem \<Rightarrow> error + filesystem" where
  "write_partitions p parts fs =
     (if is_file fs p then Inl IOException
      else if parent_dir p \<noteq> [] \<and> map_of fs (parent_dir p) \<noteq> Some Directory
      then Inl IOException
      else if dir_has_entries p fs then Inl IOException
      else Inr (concat (map (\<lambda>(sub, rows).
                  [(p @ ''/'' @ sub @ ''/data_0.parquet'', File (Parquet rows)),
                   (p @ ''/'' @ sub, Directory)]) parts)
                @ (p, Directory) # fs))"

text \<open>
  The sub-directories that a file system has directly below \<open>p\<close>: the names \<open>d\<close>, without
  separator, of its entries \<open>p/d\<close> that are directories.
\<close>

definition sub_directories :: "string \<Rightarrow> filesystem \<Rightarrow> string list" where
  "sub_directories p fs =
     map (\<lambda>(q, n). drop (length p + 1) q)
       (filter (\<lambda>(q, n). n = Directory \<and> take (length p + 1) q = p @ ''/''
                  \<and> CHR ''/'' \<notin> set (drop (length p + 1) q)) fs)"

subsection \<open>\<^verbatim>\<open>conn.execute\<close>\<close>

text \<open>
  Modelled from the spec: the engine's execution of a command. The engine (DuckDB) is an
  external collaborator and not under \<^verbatim>\<open>src/\<close>; the program only sends it the commands.
  Section 6 of the spec gives its capabilities (type and table declaration, bulk
  file-to-table copy, read queries, export), section 4.3 the failures of the load (a
  table or type of the same name exists, a value does not cast to its column's type, an
  enum value is not a label of its type) and section 4.5 the export, partitioned or not.
\<close>

fun run_command :: "engine \<Rightarrow> command \<Rightarrow> world \<Rightarrow> error + world" where
  "run_command e (CreateEnum name csv col) w =
     (if types w name \<noteq> None then Inl CatalogException
      else (case read_csv_column (files w) csv col of
              Inl err \<Rightarrow> Inl err
            | Inr vals \<Rightarrow> Inr (w\<lparr>types := (types w)(name \<mapsto> enum_labels e vals)\<rparr>)))"
| "run_command e (CreateTable name) w =
     (if tables w name \<noteq> None then Inl CatalogException
      else if \<not> list_all (\<lambda>(n, ty, nn). case ty of TEnum tn \<Rightarrow> types w tn \<noteq> None | _ \<Rightarrow> True)
                   table_columns
      then Inl CatalogException
      else Inr (w\<lparr>tables := (tables w)(name \<mapsto> [])\<rparr>))"
| "run_command e (CopyFrom name csv) w =
     (case tables w name of
        None \<Rightarrow> Inl CatalogException
      | Some old \<Rightarrow>
          (case map_of (files w) csv of
             Some (File (Csv recs)) \<Rightarrow>
               (case collect (map (convert_row e (types w)) (drop 1 recs)) of
                  Inl err \<Rightarrow> Inl err
                | Inr rows \<Rightarrow> Inr (w\<lparr>tables := (tables w)(name \<mapsto> old @ rows)\<rparr>))
           | _ \<Rightarrow> Inl IOException))"
| "run_command e (CopyTo q name p) w =
     (case tables w name of
        None \<Rightarrow> Inl CatalogException
      | Some t \<Rightarrow>
          (case write_file p (Parquet (run_query e q t)) (files w) of
             Inl err \<Rightarrow> Inl err
           | Inr fs \<Rightarrow> Inr (w\<lparr>files := fs\<rparr>)))"
| "run_command e (CopyToPartitioned q name p c) w =
     (case tables w name of
        None \<Rightarrow> Inl CatalogException
      | Some t \<Rightarrow>
          if c \<notin> set (query_columns q) then Inl BinderException
          else (case write_partitions p
                       (hive_partitions c (header_index c (query_columns q)) (run_query e q t))
                       (files w) of
                  Inl err \<Rightarrow> Inl err
                | Inr fs \<Rightarrow> Inr (w\<lparr>files := fs\<rparr>)))"

text \<open>
  Modelled from the spec: the atomicity of a command. Sections 4.3 and 7 of the spec state
  that the underlying bulk copy is all-or-nothing (any single bad row aborts the entire
  load, no partial table is left live); the engine is not under \<^verbatim>\<open>src/\<close>. So a command
  that raises leaves types, tables and files as they were, and only the trace records it.
\<close>

definition conn_execute :: "engine \<Rightarrow> command \<Rightarrow> unit io" where
  "conn_execute e cmd w =
     (case run_command e cmd w of
        Inl err \<Rightarrow> (Inl err, w\<lparr>trace := trace w @ [Executed cmd (Some err)]\<rparr>)
      | Inr w' \<Rightarrow> (Inr (), w'\<lparr>trace := trace w @ [Executed cmd None]\<rparr>))"

subsection \<open>\<^verbatim>\<open>os.makedirs(name, exist_ok=True)\<close>\<close>

text \<open>
  The directories above \<open>p\<close>, outermost first: the text before each separator, except the
  empty one and those that end in a separator themselves.
\<close>

definition ancestors :: "string \<Rightarrow> string list" where
  "ancestors p =
     filter (\<lambda>q. q \<noteq> [] \<and> last q \<noteq> CHR ''/'')
       (map (\<lambda>i. take i p) (filter (\<lambda>i. p ! i = CHR ''/'') [0..<length p]))"

fun make_all :: "string list \<Rightarrow> filesystem \<Rightarrow> error + filesystem" where
  "make_all [] fs = Inr fs"
| "make_all (p # ps) fs =
     (case map_of fs p of
        Some Directory \<Rightarrow> make_all ps fs
      | Some (File c) \<Rightarrow> Inl (if ps = [] then FileExistsError else NotADirectoryError)
      | None \<Rightarrow> make_all ps ((p, Directory) # fs))"

definition os_makedirs :: "string \<Rightarrow> unit io" where
  "os_makedirs name w =
     (case (if map_of (files w) name = Some Directory then Inr (files w)
            else make_all (ancestors name @ [name]) (files w)) of
        Inl err \<Rightarrow> (Inl err, w\<lparr>trace := trace w @ [Makedirs name (Some err)]\<rparr>)
      | Inr fs \<Rightarrow> (Inr (), w\<lparr>files := fs, trace := trace w @ [Makedirs name None]\<rparr>))"

section \<open>The program\<close>

text \<open>The calls to \<^verbatim>\<open>console.log\<close> print and change nothing else; they are left out.\<close>

subsection \<open>\<^verbatim>\<open>create_enum_from_column\<close>\<close>

definition create_enum_from_column :: "string \<Rightarrow> string \<Rightarrow> string \<Rightarrow> command" where
  "create_enum_from_column csv_file_dir col_name enum_name =
     (let enum_name =
        (if length enum_name = 0
         then py_replace '')'' '''' (py_replace ''('' '''' (py_replace '' '' '''' col_name))
         else enum_name)
      in CreateEnum enum_name csv_file_dir col_name)"

subsection \<open>\<^verbatim>\<open>create_table_from_csv\<close>\<close>

definition create_table_from_csv :: "engine \<Rightarrow> string \<Rightarrow> string io" where
  "create_table_from_csv e csv_file_dir =
     (let csv_posix_dir = csv_file_dir;
          create_electric_vehicle_enum_command =
            create_enum_from_column csv_posix_dir ''Electric Vehicle Type'' '''';
          create_cafv_eligibility_enum_command =
            create_enum_from_column csv_posix_dir
              ''Clean Alternative Fuel Vehicle (CAFV) Eligibility'' ''CAFVEligibility'';
          table_name = py_lower (path_stem csv_file_dir);
          create_table_command = CreateTable table_name;
          copy_table_command = CopyFrom table_name csv_posix_dir
      in bind_io (conn_execute e create_electric_vehicle_enum_command) (\<lambda>_.
         bind_io (conn_execute e create_cafv_eligibility_enum_command) (\<lambda>_.
         bind_io (conn_execute e create_table_command) (\<lambda>_.
         bind_io (conn_execute e copy_table_command) (\<lambda>_.
         return_io table_name)))))"

subsection \<open>\<^verbatim>\<open>collect_information\<close>\<close>

definition collect_information :: "engine \<Rightarrow> string \<Rightarrow> string \<Rightarrow> unit io" where
  "collect_information e table_name output_dir w =
     (let output_dir =
        (if length output_dir = 0 then os_path_join ''output'' (strftime (clock w))
         else output_dir)
      in bind_io (os_makedirs output_dir) (\<lambda>_.
         bind_io (conn_execute e
           (CopyTo VehiclesPerCity table_name (output_dir @ ''/vehicles_per_city.parquet''))) (\<lambda>_.
         bind_io (conn_execute e
           (CopyTo ThreeMostPopularVehicles table_name
              (output_dir @ ''/three_most_popular_vehicles.parquet''))) (\<lambda>_.
         bind_io (conn_execute e
           (CopyTo MostPopularVehiclePerPostalCode table_name
              (output_dir @ ''/most_popular_vehicle_per_postal_code.parquet''))) (\<lambda>_.
         conn_execute e
           (CopyToPartitioned VehiclesPerModelYear table_name (output_dir @ ''/per_year'')
              ''model_year''))))) w)"

subsection \<open>Names for what a run of \<^verbatim>\<open>collect_information\<close> does\<close>

text \<open>
  The directory a call writes to, the four commands it sends, in its order, the sending
  of a list of commands one after the other, and the events that a call added to the
  trace.
\<close>

definition destination_dir :: "world \<Rightarrow> string \<Rightarrow> string" where
  "destination_dir w output_dir =
     (if length output_dir = 0 then os_path_join ''output'' (strftime (clock w))
      else output_dir)"

definition export_commands :: "string \<Rightarrow> string \<Rightarrow> command list" where
  "export_commands table_name output_dir =
     [CopyTo VehiclesPerCity table_name (output_dir @ ''/vehicles_per_city.parquet''),
      CopyTo ThreeMostPopularVehicles table_name
        (output_dir @ ''/three_most_popular_vehicles.parquet''),
      CopyTo MostPopularVehiclePerPostalCode table_name
        (output_dir @ ''/most_popular_vehicle_per_postal_code.parquet''),
      CopyToPartitioned VehiclesPerModelYear table_name (output_dir @ ''/per_year'')
        ''model_year'']"

fun execute_all :: "engine \<Rightarrow> command list \<Rightarrow> unit io" where
  "execute_all e [] = return_io ()"
| "execute_all e (c # cs) = bind_io (conn_execute e c) (\<lambda>_. execute_all e cs)"

definition new_events :: "world \<Rightarrow> world \<Rightarrow> event list" where
  "new_events w w' = drop (length (trace w)) (trace w')"

section \<open>A reference engine and a sample source\<close>

text \<open>
  An engine to run the model on: rows come out in reverse where the order is free,
  integers are read in decimal, and any text is taken as a geometry.
\<close>

definition read_decimal :: "string \<Rightarrow> int option" where
  "read_decimal s =
     (let digits = (\<lambda>ds. ds \<noteq> [] \<and> list_all (\<lambda>c. c \<in> set ''0123456789'') ds);
          number = (\<lambda>ds. int (foldl (\<lambda>a c. 10 * a + digit_val c) 0 ds))
      in case s of
           [] \<Rightarrow> None
         | c # cs \<Rightarrow>
             if c = CHR ''-'' then (if digits cs then Some (- number cs) else None)
             else if digits s then Some (number s) else None)"

definition reference_engine :: engine where
  "reference_engine = \<lparr>arrange = rev, cast_integer = read_decimal, is_geometry = (\<lambda>s. True)\<rparr>"

text \<open>
  A source with the header of the vehicle registry and seven records: five of one
  vehicle, two of another, all in one city and postal code.
\<close>

definition sample_header :: "string list" where
  "sample_header =
     [''VIN (1-10)'', ''County'', ''City'', ''State'', ''Postal Code'', ''Model Year'', ''Make'',
      ''Model'', ''Electric Vehicle Type'',
      ''Clean Alternative Fuel Vehicle (CAFV) Eligibility'', ''Electric Range'', ''Base MSRP'',
      ''Legislative District'', ''DOL Vehicle ID'', ''Vehicle Location'', ''Electric Utility'',
      ''2020 Census Tract'']"

definition sample_record :: "string \<Rightarrow> string \<Rightarrow> string \<Rightarrow> string \<Rightarrow> string list" where
  "sample_record mk mdl yr cafv =
     [''5YJ3E1EA0L'', ''King'', ''Seattle'', ''WA'', ''98101'', yr, mk, mdl,
      ''Battery Electric Vehicle (BEV)'', cafv, ''250'', ''0'', ''43'', ''100000001'',
      ''POINT (-122.3 47.6)'', ''CITY OF SEATTLE'', ''53033007800'']"

definition sample_csv :: "string list list" where
  "sample_csv =
     (let tesla = sample_record ''Tesla'' ''Model3'' ''2020'' ''Eligible'';
          nissan = sample_record ''Nissan'' ''Leaf'' ''2019'' ''Unknown''
      in [sample_header, tesla, tesla, tesla, tesla, tesla, nissan, nissan])"

definition sample_path :: string where
  "sample_path = ''data/Electric_Vehicle_Population_Data.csv''"

definition sample_world :: world where
  "sample_world =
     \<lparr>types = Map.empty, tables = Map.empty,
      files = [(sample_path, File (Csv sample_csv)), (''data'', Directory)],
      clock = \<lparr>year = 2024, month = 3, day = 7, hour = 9, minute = 5, second = 2\<rparr>,
      trace = []\<rparr>"

text \<open>The table that loading the sample leaves in the session.\<close>

definition sample_table :: "row list" where
  "sample_table =
     (case tables (snd (create_table_from_csv reference_engine sample_path sample_world))
             (py_lower (path_stem sample_path)) of
        Some t \<Rightarrow> t
      | None \<Rightarrow> [])"

text \<open>
  The session after the load; the same session with a directory where the first export
  is to write its file; and a source with a record whose model year is not a number.
\<close>

definition loaded_world :: world where
  "loaded_world = snd (create_table_from_csv reference_engine sample_path sample_world)"

definition blocked_world :: world where
  "blocked_world =
     loaded_world\<lparr>files := (''out/vehicles_per_city.parquet'', Directory) # (''out'', Directory)
                            # files loaded_world\<rparr>"





section \<open>Properties of the strings\<close>

lemma py_replace_char_empty:
  "py_replace [a] [] s = filter (\<lambda>c. c \<noteq> a) s"
  by (induction s) auto

declare show_nat.simps [simp del]

lemma digit_val_digit_char: "d < 10 \<Longrightarrow> digit_val (digit_char d) = d"
proof -
  assume "d < 10"
  then have "d \<in> {0, 1, 2, 3, 4, 5, 6, 7, 8, 9}" by auto
  then show ?thesis
    by (auto simp: digit_val_def digit_char_def)
qed

lemma digit_char_not_minus: "digit_char d \<noteq> CHR ''-''"
proof -
  have "d mod 10 \<in> {0, 1, 2, 3, 4, 5, 6, 7, 8, 9}" 
    using mod_less_divisor [of 10 d] by (auto simp del: mod_less_divisor)
  then show ?thesis
    by (auto simp: digit_char_def)
qed

lemma read_show_nat: "foldl (\<lambda>a c. 10 * a + digit_val c) 0 (show_nat n) = n"
proof (induction n rule: show_nat.induct)
  case (1 n)
  show ?case
  proof (cases "n < 10")
    case True
    then show ?thesis by (simp add: show_nat.simps [of n] digit_val_digit_char)
  next
    case False
    with 1 show ?thesis
      by (simp add: show_nat.simps [of n] digit_val_digit_char)
  qed
qed

lemma show_nat_inj: "show_nat m = show_nat n \<Longrightarrow> m = n"
  by (metis read_show_nat)

lemma hd_show_nat: "show_nat n \<noteq> [] \<and> hd (show_nat n) \<noteq> CHR ''-''"
proof (induction n rule: show_nat.induct)
  case (1 n)
  show ?case
  proof (cases "n < 10")
    case True
    then show ?thesis by (simp add: show_nat.simps [of n] digit_char_not_minus)
  next
    case False
    with 1 show ?thesis
      by (simp add: show_nat.simps [of n])
  qed
qed

lemma show_int_inj: "show_int i = show_int j \<Longrightarrow> i = j"
proof -
  assume eq: "show_int i = show_int j"
  have neg: "show_nat n \<noteq> CHR ''-'' # s" for n s
    using hd_show_nat [of n] by (cases "show_nat n") auto
  then have neg': "CHR ''-'' # s \<noteq> show_nat n" for n s
    by metis
  show ?thesis
  proof (cases "i < 0")
    case True
    then have "j < 0" using eq neg neg' by (auto simp: show_int_def split: if_splits)
    with True eq have "nat (- i) = nat (- j)"
      by (auto simp: show_int_def dest: show_nat_inj)
    with True \<open>j < 0\<close> show ?thesis by simp
  next
    case False
    then have "\<not> j < 0" using eq neg neg' by (auto simp: show_int_def split: if_splits)
    with False eq have "nat i = nat j"
      by (auto simp: show_int_def dest: show_nat_inj)
    with False \<open>\<not> j < 0\<close> show ?thesis by simp
  qed
qed


lemma digit_char_is_digit: "digit_char d \<in> set ''0123456789''"
proof -
  have "d mod 10 < length ''0123456789''" by simp
  then show ?thesis unfolding digit_char_def by (rule nth_mem)
qed

lemma show_nat_digits: "set (show_nat n) \<subseteq> set ''0123456789''"
proof (induction n rule: show_nat.induct)
  case (1 n)
  show ?case
  proof (cases "n < 10")
    case True
    then show ?thesis
      using digit_char_is_digit [of n] by (simp add: show_nat.simps [of n])
  next
    case False
    with 1 show ?thesis
      using digit_char_is_digit [of "n mod 10"] by (simp add: show_nat.simps [of n])
  qed
qed

lemma show_int_no_slash: "CHR ''/'' \<notin> set (show_int i)"
  using show_nat_digits [of "nat i"] show_nat_digits [of "nat (- i)"]
  by (auto simp: show_int_def)


section \<open>Properties of the relational operators\<close>

lemma reference_engine_ok: "engine_ok reference_engine"
  by (simp add: engine_ok_def reference_engine_def)




lemma cell_last [simp]: "cell (length k) (k @ [v]) = v"
  by (simp add: cell_def)

lemma cell_append [simp]: "i < length k \<Longrightarrow> cell i (k @ vs) = cell i k"
  by (simp add: cell_def nth_append)


lemma cell_Cons_0 [simp]: "cell 0 (v # vs) = v"
  by (simp add: cell_def)

lemma cell_Cons_Suc [simp]: "cell (Suc i) (v # vs) = cell i vs"
  by (simp add: cell_def)

lemma project_simps [simp]:
  "project [] r = []"
  "project (n # ns) r = column n r # project ns r"
  by (simp_all add: project_def)

lemma length_project [simp]: "length (project names r) = length names"
  by (simp add: project_def)

lemma group_count_set:
  "set (group_count key rows) =
     (\<lambda>r. key r @ [Integer (count_rows (\<lambda>x. key x = key r) rows)]) ` set rows"
  by (auto simp: group_count_def)




lemma arrange_set: "engine_ok e \<Longrightarrow> set (arrange e rows) = set rows"
  by (metis engine_ok_def set_mset_mset)

lemma arrange_length: "engine_ok e \<Longrightarrow> length (arrange e rows) = length rows"
  by (metis engine_ok_def size_mset)





lemma order_by_desc_mset [simp]: "mset (order_by_desc i rows) = mset rows"
  by (simp add: order_by_desc_def)

lemma take1_cell0: "length r = Suc n \<Longrightarrow> take 1 r = [cell 0 r]"
  by (cases r) (auto simp: cell_def)

lemma arrange_mset: "engine_ok e \<Longrightarrow> mset (arrange e rows) = mset rows"
  by (simp add: engine_ok_def)











lemma partition_value_inj:
  "partition_value (Integer i) = partition_value (Integer j) \<Longrightarrow> i = j"
  by (simp add: partition_value_def show_int_inj)

lemma filter_distinct_key:
  "distinct (map f xs) \<Longrightarrow> x \<in> set xs \<Longrightarrow> filter (\<lambda>r. f r = f x) xs = [x]"
  by (induction xs) (auto simp: filter_empty_conv image_iff)

lemma hive_partitions_distinct_keys:
  assumes "distinct (map (cell i) rows)"
  shows "hive_partitions name i rows
         = map (\<lambda>r. (name @ ''='' @ partition_value (cell i r), [r])) rows"
proof -
  have "hive_partitions name i rows
        = map (\<lambda>v. (name @ ''='' @ partition_value v, filter (\<lambda>r. cell i r = v) rows))
              (map (cell i) rows)"
    unfolding hive_partitions_def by (simp only: distinct_remdups_id [OF assms])
  also have "\<dots> = map (\<lambda>r. (name @ ''='' @ partition_value (cell i r),
                     filter (\<lambda>x. cell i x = cell i r) rows)) rows"
    by (simp only: map_map comp_def)
  also have "\<dots> = map (\<lambda>r. (name @ ''='' @ partition_value (cell i r), [r])) rows"
    by (rule map_cong [OF refl]) (simp only: filter_distinct_key [OF assms])
  finally show ?thesis .
qed

section \<open>Properties of the session\<close>

subsection \<open>Sequencing and the trace\<close>

lemma bind_io_Inr:
  "bind_io m f w = (Inr y, w') \<Longrightarrow> \<exists>x w1. m w = (Inr x, w1) \<and> f x w1 = (Inr y, w')"
  by (auto simp: bind_io_def split: prod.splits sum.splits)


lemma bind_io_return_unit: "bind_io m return_io = (m :: unit io)"
  by (rule ext) (auto simp: bind_io_def return_io_def split: prod.splits sum.splits)


lemma conn_execute_returns:
  "conn_execute e c w = (Inr u, w') \<Longrightarrow>
     \<exists>w1. run_command e c w = Inr w1 \<and> w' = w1\<lparr>trace := trace w @ [Executed c None]\<rparr>"
  by (auto simp: conn_execute_def split: sum.splits)

lemma conn_execute_trace:
  "conn_execute e c w = (r, w') \<Longrightarrow> trace w' = trace w @ [Executed c (outcome r)]"
  by (auto simp: conn_execute_def outcome_def split: sum.splits)

lemma os_makedirs_trace:
  "os_makedirs d w = (r, w') \<Longrightarrow> trace w' = trace w @ [Makedirs d (outcome r)]"
  by (auto simp: os_makedirs_def outcome_def split: sum.splits)

lemma os_makedirs_tables:
  "os_makedirs d w = (r, w') \<Longrightarrow> tables w' = tables w"
  by (auto simp: os_makedirs_def split: sum.splits)

lemma execute_all_trace:
  assumes "execute_all e cs w = (r, w')"
  shows "(r = Inr () \<and> trace w' = trace w @ map (\<lambda>c. Executed c None) cs)
       \<or> (\<exists>err n. n < length cs \<and> r = Inl err
             \<and> trace w' = trace w @ map (\<lambda>c. Executed c None) (take n cs)
                             @ [Executed (cs ! n) (Some err)])"
  using assms
proof (induction cs arbitrary: w)
  case Nil
  then show ?case by (auto simp: return_io_def)
next
  case (Cons c cs)
  obtain r1 w1 where c: "conn_execute e c w = (r1, w1)" by fastforce
  note t1 = conn_execute_trace [OF c]
  show ?case
  proof (cases r1)
    case (Inl err)
    with Cons.prems c have "r = Inl err" "w' = w1"
      by (simp_all add: bind_io_def)
    with t1 Inl have "0 < length (c # cs) \<and> r = Inl err
        \<and> trace w' = trace w @ map (\<lambda>c. Executed c None) (take 0 (c # cs))
                        @ [Executed ((c # cs) ! 0) (Some err)]"
      by (simp add: outcome_def)
    then show ?thesis by blast
  next
    case (Inr u)
    with Cons.prems c have rest: "execute_all e cs w1 = (r, w')"
      by (simp add: bind_io_def)
    from t1 Inr have t1': "trace w1 = trace w @ [Executed c None]"
      by (simp add: outcome_def)
    from Cons.IH [OF rest] show ?thesis
    proof
      assume "r = Inr () \<and> trace w' = trace w1 @ map (\<lambda>c. Executed c None) cs"
      then show ?thesis using t1' by simp
    next
      assume "\<exists>err n. n < length cs \<and> r = Inl err
             \<and> trace w' = trace w1 @ map (\<lambda>c. Executed c None) (take n cs)
                             @ [Executed (cs ! n) (Some err)]"
      then obtain err n where n: "n < length cs" and r: "r = Inl err"
        and t: "trace w' = trace w1 @ map (\<lambda>c. Executed c None) (take n cs)
                             @ [Executed (cs ! n) (Some err)]"
        by blast
      have "Suc n < length (c # cs) \<and> r = Inl err
        \<and> trace w' = trace w @ map (\<lambda>c. Executed c None) (take (Suc n) (c # cs))
                        @ [Executed ((c # cs) ! Suc n) (Some err)]"
        using n r t t1' by simp
      then show ?thesis by blast
    qed
  qed
qed

lemma collect_information_steps:
  "collect_information e t out w
   = bind_io (os_makedirs (destination_dir w out))
       (\<lambda>_. execute_all e (export_commands t (destination_dir w out))) w"
  by (simp add: collect_information_def destination_dir_def export_commands_def Let_def
        bind_io_return_unit)

subsection \<open>The commands of the load\<close>

lemma collect_Inr: "collect rs = Inr xs \<Longrightarrow> rs = map Inr xs"
proof (induction rs arbitrary: xs)
  case Nil
  then show ?case by simp
next
  case (Cons r rs)
  then show ?case by (cases r) (auto split: sum.splits)
qed

lemma create_enum_returns:
  "conn_execute e (CreateEnum n csv col) w = (Inr u, w') \<Longrightarrow>
     tables w' = tables w \<and> files w' = files w \<and> types w n = None
     \<and> (\<exists>vals. read_csv_column (files w) csv col = Inr vals
            \<and> types w' = (types w)(n \<mapsto> enum_labels e vals))"
  by (auto dest!: conn_execute_returns split: if_splits sum.splits)

lemma create_table_returns:
  "conn_execute e (CreateTable n) w = (Inr u, w') \<Longrightarrow>
     tables w' = (tables w)(n \<mapsto> []) \<and> files w' = files w \<and> types w' = types w"
  by (auto dest!: conn_execute_returns split: if_splits)

lemma copy_from_returns:
  "conn_execute e (CopyFrom n csv) w = (Inr u, w') \<Longrightarrow>
     \<exists>old recs rows. tables w n = Some old \<and> map_of (files w) csv = Some (File (Csv recs))
       \<and> collect (map (convert_row e (types w)) (drop 1 recs)) = Inr rows
       \<and> tables w' = (tables w)(n \<mapsto> old @ rows) \<and> files w' = files w \<and> types w' = types w"
  by (auto dest!: conn_execute_returns split: option.splits node.splits content.splits sum.splits)

lemma create_table_from_csv_returns:
  assumes "create_table_from_csv e p w = (Inr name, w')"
    and "map_of (files w) p = Some (File (Csv recs))"
  shows "name = py_lower (path_stem p)
       \<and> (\<exists>rows. tables w' name = Some rows
             \<and> length rows = length recs - 1
             \<and> map (convert_row e (types w')) (drop 1 recs) = map Inr rows)"
proof -
  let ?n = "py_lower (path_stem p)"
  from assms(1) obtain u1 w1 u2 w2 u3 w3 u4 w4
    where 1: "conn_execute e (create_enum_from_column p ''Electric Vehicle Type'' []) w
                = (Inr u1, w1)"
      and 2: "conn_execute e (create_enum_from_column p
                ''Clean Alternative Fuel Vehicle (CAFV) Eligibility'' ''CAFVEligibility'') w1
                = (Inr u2, w2)"
      and 3: "conn_execute e (CreateTable ?n) w2 = (Inr u3, w3)"
      and 4: "conn_execute e (CopyFrom ?n p) w3 = (Inr u4, w4)"
      and 5: "return_io ?n w4 = (Inr name, w')"
    unfolding create_table_from_csv_def Let_def
    by (blast dest: bind_io_Inr)
  from 5 have name: "name = ?n" and w': "w' = w4"
    by (simp_all add: return_io_def)
  from 1 have f1: "files w1 = files w"
    by (auto simp: create_enum_from_column_def dest: create_enum_returns)
  from 2 have f2: "files w2 = files w1"
    by (auto simp: create_enum_from_column_def dest: create_enum_returns)
  from create_table_returns [OF 3]
  have t3: "tables w3 ?n = Some []" and f3: "files w3 = files w2"
    by simp_all
  from copy_from_returns [OF 4] obtain old recs' rows
    where "tables w3 ?n = Some old" and "map_of (files w3) p = Some (File (Csv recs'))"
      and c: "collect (map (convert_row e (types w3)) (drop 1 recs')) = Inr rows"
      and t4: "tables w4 = (tables w3)(?n \<mapsto> old @ rows)" and ty4: "types w4 = types w3"
    by blast
  with t3 f1 f2 f3 assms(2) have old: "old = []" and recs: "recs' = recs"
    by simp_all
  from collect_Inr [OF c] have m: "map (convert_row e (types w4)) (drop 1 recs) = map Inr rows"
    by (simp add: recs ty4)
  then have "length (drop 1 recs) = length rows"
    by (metis length_map)
  with t4 old m name w' show ?thesis by simp
qed


lemma col_index_values:
  "col_index ''city'' = 2" "col_index ''postal_code'' = 4" "col_index ''model_year'' = 5"
  "col_index ''make'' = 6" "col_index ''model'' = 7"
  by (simp_all add: col_index_def table_columns_def)

text \<open>
  The \<open>model_year\<close> cell of a converted record is an integer, so the table that a load
  leaves has only integer model years.
\<close>

lemma converted_model_year_is_integer:
  assumes "convert_row e tys line = Inr r"
  shows "\<exists>y. column ''model_year'' r = Integer y"
proof -
  let ?rs = "map (\<lambda>(c, s). convert_field e tys c s) (zip table_columns line)"
  from assms have len: "length line = length table_columns" and c: "collect ?rs = Inr r"
    by (auto simp: convert_row_def split: if_splits)
  from collect_Inr [OF c] have m: "?rs = map Inr r" .
  then have "length ?rs = length r" by (metis length_map)
  with len have lr: "length r = 17" by (simp add: table_columns_def)
  have l17: "length line = 17" using len by (simp add: table_columns_def)
  from m have "?rs ! 5 = map Inr r ! 5" by simp
  then have "convert_field e tys (table_columns ! 5) (line ! 5) = Inr (r ! 5)"
    using lr l17 len by (simp add: table_columns_def)
  moreover have "table_columns ! 5 = (''model_year'', TInteger, True)"
    by (simp add: table_columns_def)
  ultimately obtain y where "Integer y = r ! 5"
    by (auto simp: convert_field_def split: if_splits option.splits)
  then have "r ! 5 = Integer y" by simp
  then show ?thesis
    using lr by (simp add: column_def col_index_values cell_def)
qed

lemma loaded_model_years_are_integers:
  assumes "create_table_from_csv e p w = (Inr name, w')"
    and "tables w' name = Some t"
  shows "\<forall>r \<in> set t. \<exists>y. column ''model_year'' r = Integer y"
proof -
  from assms(1) obtain u1 w1 u2 w2 u3 w3 u4 w4
    where "conn_execute e (create_enum_from_column p ''Electric Vehicle Type'' []) w
             = (Inr u1, w1)"
      and "conn_execute e (create_enum_from_column p
             ''Clean Alternative Fuel Vehicle (CAFV) Eligibility'' ''CAFVEligibility'') w1
             = (Inr u2, w2)"
      and 3: "conn_execute e (CreateTable (py_lower (path_stem p))) w2 = (Inr u3, w3)"
      and 4: "conn_execute e (CopyFrom (py_lower (path_stem p)) p) w3 = (Inr u4, w4)"
      and 5: "return_io (py_lower (path_stem p)) w4 = (Inr name, w')"
    unfolding create_table_from_csv_def Let_def
    by (blast dest: bind_io_Inr)
  from 5 have name: "name = py_lower (path_stem p)" and w': "w' = w4"
    by (simp_all add: return_io_def)
  from create_table_returns [OF 3] have t3: "tables w3 name = Some []"
    by (simp add: name)
  from copy_from_returns [OF 4] t3 obtain recs rows
    where c: "collect (map (convert_row e (types w3)) (drop 1 recs)) = Inr rows"
      and "tables w4 name = Some rows"
    by (auto simp: name)
  with assms(2) w' have t: "t = rows" by simp
  from collect_Inr [OF c]
  have "set (map (convert_row e (types w3)) (drop 1 recs)) = set (map Inr rows)"
    by simp
  then have eq: "convert_row e (types w3) ` set (drop 1 recs) = Inr ` set rows"
    by simp
  have "\<exists>y. column ''model_year'' r = Integer y" if "r \<in> set rows" for r
  proof -
    from that have "Inr r \<in> convert_row e (types w3) ` set (drop 1 recs)"
      unfolding eq by (rule imageI)
    then obtain l where "convert_row e (types w3) l = Inr r"
      by (auto simp: image_iff)
    then show ?thesis by (rule converted_model_year_is_integer)
  qed
  with t show ?thesis by blast
qed

subsection \<open>The labels of an enum type\<close>






subsection \<open>The exports\<close>

lemma copy_to_returns:
  "conn_execute e (CopyTo q n p) w = (Inr u, w') \<Longrightarrow> tables w' = tables w"
  by (auto dest!: conn_execute_returns split: option.splits sum.splits)

lemma collect_information_last_export:
  assumes "collect_information e n out w = (Inr u, w')"
  shows "\<exists>u4 w3. tables w3 = tables w
           \<and> conn_execute e
                (CopyToPartitioned VehiclesPerModelYear n (destination_dir w out @ ''/per_year'')
                   ''model_year'') w3 = (Inr u4, w')"
proof -
  let ?d = "destination_dir w out"
  from assms obtain u0 w0 where m: "os_makedirs ?d w = (Inr u0, w0)"
    and run: "execute_all e (export_commands n ?d) w0 = (Inr u, w')"
    unfolding collect_information_steps by (blast dest: bind_io_Inr)
  from run obtain u1 w1 u2 w2 u3 w3 u4 w4
    where 1: "conn_execute e (CopyTo VehiclesPerCity n (?d @ ''/vehicles_per_city.parquet'')) w0
                = (Inr u1, w1)"
      and 2: "conn_execute e (CopyTo ThreeMostPopularVehicles n
                (?d @ ''/three_most_popular_vehicles.parquet'')) w1 = (Inr u2, w2)"
      and 3: "conn_execute e (CopyTo MostPopularVehiclePerPostalCode n
                (?d @ ''/most_popular_vehicle_per_postal_code.parquet'')) w2 = (Inr u3, w3)"
      and 4: "conn_execute e (CopyToPartitioned VehiclesPerModelYear n (?d @ ''/per_year'')
                ''model_year'') w3 = (Inr u4, w4)"
      and 5: "return_io () w4 = (Inr u, w')"
    unfolding export_commands_def execute_all.simps
    by (blast dest: bind_io_Inr)
  from 5 have "w' = w4" by (simp add: return_io_def)
  moreover have "tables w3 = tables w"
    using os_makedirs_tables [OF m] copy_to_returns [OF 1] copy_to_returns [OF 2]
      copy_to_returns [OF 3] by simp
  ultimately show ?thesis using 4 by blast
qed

lemma copy_partitioned_returns:
  assumes "conn_execute e (CopyToPartitioned VehiclesPerModelYear n p ''model_year'') w = (Inr u, w')"
    and "tables w n = Some t"
  shows "\<not> dir_has_entries p (files w)
       \<and> files w' =
           concat (map (\<lambda>(sub, rows).
                  [(p @ ''/'' @ sub @ ''/data_0.parquet'', File (Parquet rows)),
                   (p @ ''/'' @ sub, Directory)])
              (hive_partitions ''model_year'' 0 (vehicles_per_model_year e t)))
           @ (p, Directory) # files w"
  using assms
  by (auto dest!: conn_execute_returns
      simp: write_partitions_def header_index_def split: sum.splits if_splits)

lemma sub_directories_old:
  "\<not> dir_has_entries p fs \<Longrightarrow> sub_directories p ((p, Directory) # fs) = []"
  by (auto simp: dir_has_entries_def sub_directories_def list_ex_iff filter_empty_conv)

lemma sub_directories_new:
  assumes "\<forall>(sub, rows) \<in> set parts. CHR ''/'' \<notin> set sub"
  shows "sub_directories p
           (concat (map (\<lambda>(sub, rows).
                  [(p @ ''/'' @ sub @ ''/data_0.parquet'', File (Parquet rows)),
                   (p @ ''/'' @ sub, Directory)]) parts) @ rest)
         = map fst parts @ sub_directories p rest"
  using assms
  by (induction parts) (auto simp: sub_directories_def)

lemma lookup_partition_file:
  assumes "\<forall>(sub, rows) \<in> set parts. CHR ''/'' \<notin> set sub"
    and "distinct (map fst parts)"
    and "(sub, rows) \<in> set parts"
  shows "map_of
           (concat (map (\<lambda>(sub, rows).
                  [(p @ ''/'' @ sub @ ''/data_0.parquet'', File (Parquet rows)),
                   (p @ ''/'' @ sub, Directory)]) parts) @ rest)
           (p @ ''/'' @ sub @ ''/data_0.parquet'')
         = Some (File (Parquet rows))"
  using assms
proof (induction parts)
  case Nil
  then show ?case by simp
next
  case (Cons a parts)
  obtain s rs where a: "a = (s, rs)" by (cases a)
  show ?case
  proof (cases "s = sub")
    case True
    with Cons.prems a have "rs = rows"
      by (auto simp: image_iff)
    with True a show ?thesis by simp
  next
    case False
    have "CHR ''/'' \<notin> set s" using Cons.prems(1) a by simp
    then have "s \<noteq> sub @ ''/data_0.parquet''" by auto
    with False a Cons show ?thesis by auto
  qed
qed

lemma per_year_partition_list:
  assumes "engine_ok e"
    and "\<forall>r \<in> set t. \<exists>y. column ''model_year'' r = Integer y"
  shows "length (hive_partitions ''model_year'' 0 (vehicles_per_model_year e t))
           = card (column ''model_year'' ` set t)
       \<and> distinct (map fst (hive_partitions ''model_year'' 0 (vehicles_per_model_year e t)))
       \<and> (\<forall>r \<in> set t. \<exists>y. column ''model_year'' r = Integer y
             \<and> (''model_year='' @ show_int y,
                  [[Integer y, Integer (count_rows (\<lambda>x. column ''model_year'' x = Integer y) t)]])
               \<in> set (hive_partitions ''model_year'' 0 (vehicles_per_model_year e t)))
       \<and> (\<forall>p \<in> set (hive_partitions ''model_year'' 0 (vehicles_per_model_year e t)).
             \<exists>r \<in> set t. \<exists>y. column ''model_year'' r = Integer y
               \<and> p = (''model_year='' @ show_int y,
                  [[Integer y, Integer (count_rows (\<lambda>x. column ''model_year'' x = Integer y) t)]]))"
proof -
  let ?key = "project [''model_year'']"
  let ?cnt = "\<lambda>v. count_rows (\<lambda>x. column ''model_year'' x = v) t"
  let ?G = "group_count ?key t"
  let ?A = "vehicles_per_model_year e t"
  let ?ps = "hive_partitions ''model_year'' 0 ?A"
  let ?years = "column ''model_year'' ` set t"
  let ?part = "\<lambda>v. (''model_year='' @ partition_value v, [[v, Integer (?cnt v)]])"
  have setA: "set ?A = (\<lambda>v. [v, Integer (?cnt v)]) ` ?years"
    using assms(1) by (auto simp: vehicles_per_model_year_def arrange_set group_count_set)
  have "mset (map (cell 0) ?A) = mset (map (cell 0) ?G)"
    using assms(1) by (simp add: vehicles_per_model_year_def arrange_mset)
  moreover have "map (cell 0) ?G = map (cell 0) (remdups (map ?key t))"
    unfolding group_count_def map_map by (rule map_cong) auto
  moreover have "inj_on (cell 0) (?key ` set t)"
    by (rule inj_onI) auto
  then have "distinct (map (cell 0) (remdups (map ?key t)))"
    by (simp add: distinct_map)
  ultimately have dA: "distinct (map (cell 0) ?A)"
    by (metis mset_eq_imp_distinct_iff)
  have ps: "?ps = map (\<lambda>r. (''model_year='' @ partition_value (cell 0 r), [r])) ?A"
    using hive_partitions_distinct_keys [OF dA, of "''model_year''"] by simp
  have set_ps: "set ?ps = ?part ` ?years"
    unfolding ps set_map setA by (simp add: image_image)
  have "length ?ps = length ?G"
    unfolding ps using assms(1) by (simp add: vehicles_per_model_year_def arrange_length)
  also have "\<dots> = card (?key ` set t)"
    by (simp add: group_count_def length_remdups_card_conv)
  also have "\<dots> = card ?years"
  proof -
    have "?key ` set t = (\<lambda>v. [v]) ` ?years" by (simp add: image_image)
    moreover have "inj_on (\<lambda>v. [v]) ?years" by (rule inj_onI) simp
    ultimately show ?thesis by (simp add: card_image)
  qed
  finally have 1: "length ?ps = card ?years" .
  have names: "map fst ?ps = map (\<lambda>v. ''model_year='' @ partition_value v) (map (cell 0) ?A)"
    unfolding ps by (simp add: comp_def)
  have c0: "set (map (cell 0) ?A) = ?years"
    unfolding set_map setA by (simp add: image_image)
  have "inj_on (\<lambda>v. ''model_year='' @ partition_value v) ?years"
  proof (rule inj_onI)
    fix v w assume "v \<in> ?years" "w \<in> ?years"
      and eq: "''model_year='' @ partition_value v = ''model_year='' @ partition_value w"
    have ints: "\<forall>u \<in> ?years. \<exists>i. u = Integer i" using assms(2) by auto
    from ints \<open>v \<in> ?years\<close> obtain i where "v = Integer i" by blast
    moreover from ints \<open>w \<in> ?years\<close> obtain j where "w = Integer j" by blast
    ultimately have "v = Integer i" "w = Integer j" by simp_all
    with eq show "v = w" using partition_value_inj [of i j] by simp
  qed
  then have injA: "inj_on (\<lambda>v. ''model_year='' @ partition_value v) (set (map (cell 0) ?A))"
    unfolding c0 .
  have 2: "distinct (map fst ?ps)"
    unfolding names by (rule iffD2 [OF distinct_map, OF conjI [OF dA injA]])
  have 3: "\<exists>y. column ''model_year'' r = Integer y
             \<and> (''model_year='' @ show_int y, [[Integer y, Integer (?cnt (Integer y))]]) \<in> set ?ps"
    if "r \<in> set t" for r
  proof -
    from that assms(2) obtain y where y: "column ''model_year'' r = Integer y" by auto
    have "?part (column ''model_year'' r) \<in> set ?ps"
      unfolding set_ps using that by blast
    then show ?thesis using y by (simp add: partition_value_def)
  qed
  have 4: "\<exists>r \<in> set t. \<exists>y. column ''model_year'' r = Integer y
               \<and> p = (''model_year='' @ show_int y, [[Integer y, Integer (?cnt (Integer y))]])"
    if "p \<in> set ?ps" for p
  proof -
    from that obtain r where r: "r \<in> set t" and p: "p = ?part (column ''model_year'' r)"
      unfolding set_ps by blast
    from r assms(2) obtain y where y: "column ''model_year'' r = Integer y" by auto
    with r p show ?thesis by (auto simp: partition_value_def)
  qed
  from 1 2 3 4 show ?thesis by blast
qed

subsection \<open>The destination directory\<close>

lemma digit_char_not_slash: "digit_char d \<noteq> CHR ''/''"
proof -
  have "d mod 10 \<in> {0, 1, 2, 3, 4, 5, 6, 7, 8, 9}"
    using mod_less_divisor [of 10 d] by (auto simp del: mod_less_divisor)
  then show ?thesis
    by (auto simp: digit_char_def)
qed

lemma hd_show_nat_not_slash: "show_nat n \<noteq> [] \<and> hd (show_nat n) \<noteq> CHR ''/''"
proof (induction n rule: show_nat.induct)
  case (1 n)
  show ?case
  proof (cases "n < 10")
    case True
    then show ?thesis by (simp add: show_nat.simps [of n] digit_char_not_slash)
  next
    case False
    with 1 show ?thesis
      by (simp add: show_nat.simps [of n])
  qed
qed

lemma hd_zero_fill: "zero_fill k n \<noteq> [] \<and> hd (zero_fill k n) \<noteq> CHR ''/''"
  using hd_show_nat_not_slash [of n]
  by (cases "k - length (show_nat n)") (auto simp: zero_fill_def)

lemma hd_strftime: "strftime d \<noteq> [] \<and> hd (strftime d) \<noteq> CHR ''/''"
  using hd_zero_fill [of 4 "year d"] by (simp add: strftime_def)

lemma default_destination:
  "os_path_join ''output'' (strftime d) = ''output/'' @ strftime d"
  using hd_strftime [of d] by (simp add: os_path_join_def)

lemma make_all_returns:
  "make_all ps fs = Inr fs' \<Longrightarrow>
     (\<forall>p\<in>set ps. map_of fs' p = Some Directory)
     \<and> (\<forall>p n. map_of fs p = Some n \<longrightarrow> map_of fs' p = Some n)"
proof (induction ps arbitrary: fs)
  case Nil
  then show ?case by simp
next
  case (Cons p ps)
  show ?case
  proof (cases "map_of fs p")
    case None
    with Cons.prems have "make_all ps ((p, Directory) # fs) = Inr fs'" by simp
    from Cons.IH [OF this]
    have a: "\<forall>q\<in>set ps. map_of fs' q = Some Directory"
      and b: "\<forall>q n. map_of ((p, Directory) # fs) q = Some n \<longrightarrow> map_of fs' q = Some n"
      by blast+
    from b have "map_of fs' p = Some Directory" by simp
    moreover have "map_of fs' q = Some n" if "map_of fs q = Some n" for q n
    proof -
      from that None have "q \<noteq> p" by auto
      with that b show ?thesis by simp
    qed
    ultimately show ?thesis using a by simp
  next
    case (Some n)
    with Cons.prems have d: "n = Directory" and "make_all ps fs = Inr fs'"
      by (cases n; simp)+
    from Cons.IH [OF this(2)] Some d show ?thesis by auto
  qed
qed

lemma make_all_raises:
  "make_all ps fs = Inl err \<Longrightarrow> \<exists>p\<in>set ps. is_file fs p"
proof (induction ps arbitrary: fs)
  case Nil
  then show ?case by simp
next
  case (Cons p ps)
  show ?case
  proof (cases "map_of fs p")
    case None
    with Cons.prems have "make_all ps ((p, Directory) # fs) = Inl err" by simp
    from Cons.IH [OF this] obtain q where "q \<in> set ps" "is_file ((p, Directory) # fs) q"
      by blast
    then show ?thesis by (auto simp: is_file_def split: if_splits)
  next
    case (Some n)
    show ?thesis
    proof (cases n)
      case (File c)
      with Some show ?thesis by (simp add: is_file_def)
    next
      case Directory
      with Some Cons.prems have "make_all ps fs = Inl err" by simp
      from Cons.IH [OF this] show ?thesis by auto
    qed
  qed
qed

lemma os_makedirs_existing:
  "map_of (files w) d = Some Directory \<Longrightarrow>
     os_makedirs d w = (Inr (), w\<lparr>files := files w, trace := trace w @ [Makedirs d None]\<rparr>)"
  by (simp add: os_makedirs_def)

lemma os_makedirs_returns:
  assumes "os_makedirs d w = (Inr u, w0)"
  shows "map_of (files w0) d = Some Directory
       \<and> (map_of (files w) d \<noteq> Some Directory \<longrightarrow>
            list_all (\<lambda>a. map_of (files w0) a = Some Directory) (ancestors d))
       \<and> (\<forall>p n. map_of (files w) p = Some n \<longrightarrow> map_of (files w0) p = Some n)"
proof (cases "map_of (files w) d = Some Directory")
  case False
  with assms obtain fs where m: "make_all (ancestors d @ [d]) (files w) = Inr fs"
    and "files w0 = fs"
    by (auto simp: os_makedirs_def split: sum.splits)
  with make_all_returns [OF m] show ?thesis by (auto simp: list_all_iff)
next
  case True
  with assms have "files w0 = files w" by (auto simp: os_makedirs_def)
  with True show ?thesis by simp
qed

lemma os_makedirs_raises:
  assumes "os_makedirs d w = (Inl err, w0)"
  shows "(\<exists>p\<in>set (ancestors d @ [d]). is_file (files w) p)
       \<and> w0 = w\<lparr>trace := trace w @ [Makedirs d (Some err)]\<rparr>"
proof -
  from assms have "make_all (ancestors d @ [d]) (files w) = Inl err"
    and "w0 = w\<lparr>trace := trace w @ [Makedirs d (Some err)]\<rparr>"
    by (auto simp: os_makedirs_def split: sum.splits if_splits)
  with make_all_raises show ?thesis by blast
qed

subsection \<open>The sample, evaluated\<close>

lemma sample_table_rows:
  "sample_table =
     (let tesla = [Text ''5YJ3E1EA0L'', Text ''King'', Text ''Seattle'', Text ''WA'', Text ''98101'',
                   Integer 2020, Text ''Tesla'', Text ''Model3'',
                   Text ''Battery Electric Vehicle (BEV)'', Text ''Eligible'', Integer 250,
                   Integer 0, Integer 43, Text ''100000001'', Geometry ''POINT (-122.3 47.6)'',
                   Text ''CITY OF SEATTLE'', Text ''53033007800''];
          nissan = [Text ''5YJ3E1EA0L'', Text ''King'', Text ''Seattle'', Text ''WA'', Text ''98101'',
                   Integer 2019, Text ''Nissan'', Text ''Leaf'',
                   Text ''Battery Electric Vehicle (BEV)'', Text ''Unknown'', Integer 250,
                   Integer 0, Integer 43, Text ''100000001'', Geometry ''POINT (-122.3 47.6)'',
                   Text ''CITY OF SEATTLE'', Text ''53033007800'']
      in [tesla, tesla, tesla, tesla, tesla, nissan, nissan])"
  by code_simp

lemma sample_load_returns:
  "create_table_from_csv reference_engine sample_path sample_world
   = (Inr ''electric_vehicle_population_data'', loaded_world)"
proof -
  have "fst (create_table_from_csv reference_engine sample_path sample_world)
        = Inr ''electric_vehicle_population_data''"
    by code_simp
  then show ?thesis by (simp add: loaded_world_def prod_eq_iff)
qed

lemma sample_file: "map_of (files sample_world) sample_path = Some (File (Csv sample_csv))"
  by (simp add: sample_world_def)

lemma sample_table_name:
  "py_lower (path_stem sample_path) = ''electric_vehicle_population_data''"
  by code_simp

lemma sample_table_loaded:
  "tables loaded_world ''electric_vehicle_population_data'' = Some sample_table"
proof -
  from create_table_from_csv_returns [OF sample_load_returns sample_file]
  obtain rows where rows: "tables loaded_world ''electric_vehicle_population_data'' = Some rows"
    by blast
  have "sample_table = rows"
    unfolding sample_table_def loaded_world_def [symmetric] sample_table_name rows by simp
  with rows show ?thesis by simp
qed

lemma sample_model_years:
  "column ''model_year'' ` set sample_table = {Integer 2020, Integer 2019}"
  by (simp add: sample_table_rows Let_def column_def col_index_values cell_def)









lemma sample_run_returns:
  "fst (collect_information reference_engine ''electric_vehicle_population_data'' ''out''
          loaded_world) = Inr ()"
  by code_simp

lemma sample_export_returns:
  "collect_information reference_engine ''electric_vehicle_population_data'' ''out'' loaded_world
   = (Inr (), snd (collect_information reference_engine ''electric_vehicle_population_data''
                     ''out'' loaded_world))"
  using sample_run_returns by (simp add: prod_eq_iff)

lemma sample_destination: "destination_dir loaded_world ''out'' @ ''/per_year'' = ''out/per_year''"
  by (simp add: destination_dir_def)

lemma sample_clock: "strftime (clock loaded_world) = ''2024-03-07_09-05-02''"
  by code_simp

section \<open>The claims\<close>

subsection \<open>The name of the enum type\<close>

text \<open>
  Claim C9. With an empty \<open>enum_name\<close> the type is named by the column name without its
  spaces and parentheses, every other character kept in place; a non-empty \<open>enum_name\<close>
  is used as it is.
\<close>

theorem enum_name_derived_from_column:
  "command_type_name (create_enum_from_column csv col_name enum_name) =
     (if enum_name = []
      then filter (\<lambda>c. c \<noteq> CHR '' '' \<and> c \<noteq> CHR ''('' \<and> c \<noteq> CHR '')'') col_name
      else enum_name)"
  by (auto simp: create_enum_from_column_def py_replace_char_empty intro: filter_cong)

theorem enum_name_derived_from_column_witness:
  "command_type_name (create_enum_from_column ''d.csv'' ''Electric Vehicle Type'' [])
     = ''ElectricVehicleType''
   \<and> command_type_name
       (create_enum_from_column ''d.csv''
          ''Clean Alternative Fuel Vehicle (CAFV) Eligibility'' [])
     = ''CleanAlternativeFuelVehicleCAFVEligibility''
   \<and> command_type_name
       (create_enum_from_column ''d.csv''
          ''Clean Alternative Fuel Vehicle (CAFV) Eligibility'' ''CAFVEligibility'')
     = ''CAFVEligibility''"
  using enum_name_derived_from_column [of "''d.csv''" "''Electric Vehicle Type''" "[]"]
    enum_name_derived_from_column
      [of "''d.csv''" "''Clean Alternative Fuel Vehicle (CAFV) Eligibility''" "[]"]
    enum_name_derived_from_column
      [of "''d.csv''" "''Clean Alternative Fuel Vehicle (CAFV) Eligibility''"
          "''CAFVEligibility''"]
  by simp

subsection \<open>Vehicles per city\<close>



subsection \<open>The three most popular vehicles\<close>



subsection \<open>The most popular vehicle per postal code\<close>



subsection \<open>Vehicles per model year, partitioned\<close>

text \<open>
  Claim C7. When \<^verbatim>\<open>collect_information\<close> returns, on a table whose \<open>model_year\<close> cells
  are integers (as they are in every loaded table, \<open>loaded_model_years_are_integers\<close>),
  the files it leaves hold, directly below \<^verbatim>\<open>per_year\<close> in the destination, exactly one
  sub-directory per distinct model year of the table: their names are distinct, their
  number is the number of distinct years, the sub-directory of year \<open>y\<close> is named
  \<^verbatim>\<open>model_year=y\<close>, and its file holds the single row of \<open>y\<close> with the number of table rows
  of that year.
\<close>

theorem per_year_export_partitions:
  assumes "engine_ok e"
    and "collect_information e n out w = (Inr u, w')"
    and "tables w n = Some t"
    and "\<forall>r \<in> set t. \<exists>y. column ''model_year'' r = Integer y"
  shows "distinct (sub_directories (destination_dir w out @ ''/per_year'') (files w'))
       \<and> length (sub_directories (destination_dir w out @ ''/per_year'') (files w'))
           = card (column ''model_year'' ` set t)
       \<and> (\<forall>r \<in> set t. \<exists>y. column ''model_year'' r = Integer y
             \<and> ''model_year='' @ show_int y
                 \<in> set (sub_directories (destination_dir w out @ ''/per_year'') (files w'))
             \<and> map_of (files w')
                  (destination_dir w out @ ''/per_year/model_year='' @ show_int y
                     @ ''/data_0.parquet'')
                 = Some (File (Parquet
                     [[Integer y,
                       Integer (count_rows (\<lambda>x. column ''model_year'' x = Integer y) t)]])))
       \<and> (\<forall>d \<in> set (sub_directories (destination_dir w out @ ''/per_year'') (files w')).
             \<exists>r \<in> set t. \<exists>y. column ''model_year'' r = Integer y
               \<and> d = ''model_year='' @ show_int y)"
proof -
  let ?p = "destination_dir w out @ ''/per_year''"
  let ?parts = "hive_partitions ''model_year'' 0 (vehicles_per_model_year e t)"
  let ?cnt = "\<lambda>y. count_rows (\<lambda>x. column ''model_year'' x = Integer y) t"
  from collect_information_last_export [OF assms(2)] obtain u4 w3
    where t3: "tables w3 = tables w"
      and 4: "conn_execute e (CopyToPartitioned VehiclesPerModelYear n ?p ''model_year'') w3
                = (Inr u4, w')"
    by blast
  from t3 assms(3) have "tables w3 n = Some t" by simp
  from copy_partitioned_returns [OF 4 this]
  have empty: "\<not> dir_has_entries ?p (files w3)"
    and fs: "files w' =
           concat (map (\<lambda>(sub, rows).
                  [(?p @ ''/'' @ sub @ ''/data_0.parquet'', File (Parquet rows)),
                   (?p @ ''/'' @ sub, Directory)]) ?parts)
           @ (?p, Directory) # files w3"
    by blast+
  note list = per_year_partition_list [OF assms(1,4)]
  have len: "length ?parts = card (column ''model_year'' ` set t)"
    using list by (rule conjunct1)
  have dist: "distinct (map fst ?parts)"
    using list by (rule conjunct1 [OF conjunct2])
  have each: "\<forall>r \<in> set t. \<exists>y. column ''model_year'' r = Integer y
             \<and> (''model_year='' @ show_int y, [[Integer y, Integer (?cnt y)]]) \<in> set ?parts"
    using list by (rule conjunct1 [OF conjunct2 [OF conjunct2]])
  have only: "\<forall>p \<in> set ?parts. \<exists>r \<in> set t. \<exists>y. column ''model_year'' r = Integer y
               \<and> p = (''model_year='' @ show_int y, [[Integer y, Integer (?cnt y)]])"
    using list by (rule conjunct2 [OF conjunct2 [OF conjunct2]])
  have noslash: "\<forall>(sub, rows) \<in> set ?parts. CHR ''/'' \<notin> set sub"
  proof -
    have "CHR ''/'' \<notin> set (fst p)" if "p \<in> set ?parts" for p
    proof -
      from only that obtain y where "p = (''model_year='' @ show_int y, [[Integer y, Integer (?cnt y)]])"
        by blast
      then show ?thesis using show_int_no_slash [of y] by simp
    qed
    then show ?thesis by auto
  qed
  have subs: "sub_directories ?p (files w') = map fst ?parts"
    unfolding fs
    by (simp only: sub_directories_new [OF noslash] sub_directories_old [OF empty] append_Nil2)
  have 1: "distinct (sub_directories ?p (files w'))"
    unfolding subs by (rule dist)
  have 2: "length (sub_directories ?p (files w')) = card (column ''model_year'' ` set t)"
    unfolding subs using len by simp
  have 3: "\<exists>y. column ''model_year'' r = Integer y
             \<and> ''model_year='' @ show_int y \<in> set (sub_directories ?p (files w'))
             \<and> map_of (files w') (destination_dir w out @ ''/per_year/model_year='' @ show_int y
                     @ ''/data_0.parquet'')
                 = Some (File (Parquet [[Integer y, Integer (?cnt y)]]))"
    if "r \<in> set t" for r
  proof -
    from each that obtain y where y: "column ''model_year'' r = Integer y"
      and mem: "(''model_year='' @ show_int y, [[Integer y, Integer (?cnt y)]]) \<in> set ?parts"
      by blast
    from mem have "fst (''model_year='' @ show_int y, [[Integer y, Integer (?cnt y)]])
                     \<in> fst ` set ?parts"
      by (rule imageI)
    then have "''model_year='' @ show_int y \<in> set (map fst ?parts)"
      by simp
    moreover have "map_of (files w') (?p @ ''/'' @ (''model_year='' @ show_int y) @ ''/data_0.parquet'')
                   = Some (File (Parquet [[Integer y, Integer (?cnt y)]]))"
      unfolding fs by (rule lookup_partition_file [OF noslash dist mem])
    ultimately show ?thesis using y unfolding subs by simp
  qed
  have 4: "\<exists>r \<in> set t. \<exists>y. column ''model_year'' r = Integer y \<and> d = ''model_year='' @ show_int y"
    if "d \<in> set (sub_directories ?p (files w'))" for d
  proof -
    from that obtain p where p: "p \<in> set ?parts" and d: "d = fst p"
      unfolding subs by auto
    from only p obtain r y where "r \<in> set t" "column ''model_year'' r = Integer y"
      "p = (''model_year='' @ show_int y, [[Integer y, Integer (?cnt y)]])"
      by blast
    with d show ?thesis by auto
  qed
  show ?thesis
  proof (intro conjI)
    show "distinct (sub_directories ?p (files w'))" by (rule 1)
    show "length (sub_directories ?p (files w')) = card (column ''model_year'' ` set t)"
      by (rule 2)
    show "\<forall>r \<in> set t. \<exists>y. column ''model_year'' r = Integer y
             \<and> ''model_year='' @ show_int y \<in> set (sub_directories ?p (files w'))
             \<and> map_of (files w') (destination_dir w out @ ''/per_year/model_year='' @ show_int y
                     @ ''/data_0.parquet'')
                 = Some (File (Parquet [[Integer y, Integer (?cnt y)]]))"
      using 3 by (rule ballI)
    show "\<forall>d \<in> set (sub_directories ?p (files w')).
             \<exists>r \<in> set t. \<exists>y. column ''model_year'' r = Integer y
               \<and> d = ''model_year='' @ show_int y"
      using 4 by (rule ballI)
  qed
qed

theorem per_year_export_partitions_witness:
  "engine_ok reference_engine
   \<and> tables loaded_world ''electric_vehicle_population_data'' = Some sample_table
   \<and> column ''model_year'' ` set sample_table = {Integer 2020, Integer 2019}
   \<and> length (sub_directories ''out/per_year''
        (files (snd (collect_information reference_engine ''electric_vehicle_population_data''
                       ''out'' loaded_world)))) = 2"
proof -
  have ints: "\<forall>r \<in> set sample_table. \<exists>y. column ''model_year'' r = Integer y"
    by (simp add: sample_table_rows Let_def column_def col_index_values cell_def)
  have "length (sub_directories (destination_dir loaded_world ''out'' @ ''/per_year'')
        (files (snd (collect_information reference_engine ''electric_vehicle_population_data''
                       ''out'' loaded_world))))
        = card (column ''model_year'' ` set sample_table)"
    using per_year_export_partitions
      [OF reference_engine_ok sample_export_returns sample_table_loaded ints]
    by (rule conjunct1 [OF conjunct2])
  then have "length (sub_directories ''out/per_year''
        (files (snd (collect_information reference_engine ''electric_vehicle_population_data''
                       ''out'' loaded_world)))) = 2"
    unfolding sample_destination sample_model_years by simp
  then show ?thesis
    using reference_engine_ok sample_table_loaded sample_model_years by simp
qed

subsection \<open>The load keeps the row count\<close>

text \<open>
  Claim C4. When \<^verbatim>\<open>create_table_from_csv\<close> returns, the table it names holds one row
  per record of the source after the header: the number of rows is the number of records
  less the one header record, and the rows are the conversions of those records, in
  order.
\<close>

theorem load_preserves_row_count:
  assumes "create_table_from_csv e p w = (Inr name, w')"
    and "map_of (files w) p = Some (File (Csv recs))"
  shows "name = py_lower (path_stem p)
       \<and> (\<exists>rows. tables w' name = Some rows
             \<and> length rows = length recs - 1
             \<and> map (convert_row e (types w')) (drop 1 recs) = map Inr rows)"
  using assms by (rule create_table_from_csv_returns)

theorem load_preserves_row_count_witness:
  "map_of (files sample_world) sample_path = Some (File (Csv sample_csv))
   \<and> length sample_csv = 8
   \<and> map_option length (tables loaded_world ''electric_vehicle_population_data'') = Some 7"
proof -
  have len: "length sample_csv = 8" by (simp add: sample_csv_def Let_def)
  from load_preserves_row_count [OF sample_load_returns sample_file]
  show ?thesis using len sample_file by auto
qed

subsection \<open>The load is all or nothing\<close>




subsection \<open>The labels of the enum type\<close>



subsection \<open>A failing export ends the run\<close>

text \<open>
  Claim C1, amended. \<^verbatim>\<open>collect_information\<close> sends its four commands one after the other
  and has no exception handler: either all four succeed, or \<^verbatim>\<open>os.makedirs\<close> raises and
  nothing is sent, or the first command that raises ends the call with its exception, the
  commands before it having succeeded and the commands after it never being sent.
\<close>

theorem run_stops_at_first_failure:
  assumes "collect_information e t out w = (r, w')"
  shows "(r = Inr ()
          \<and> new_events w w' = Makedirs (destination_dir w out) None
               # map (\<lambda>c. Executed c None) (export_commands t (destination_dir w out)))
       \<or> (\<exists>err. r = Inl err \<and> new_events w w' = [Makedirs (destination_dir w out) (Some err)])
       \<or> (\<exists>err n. n < 4 \<and> r = Inl err
             \<and> new_events w w' = Makedirs (destination_dir w out) None
                  # map (\<lambda>c. Executed c None) (take n (export_commands t (destination_dir w out)))
                  @ [Executed (export_commands t (destination_dir w out) ! n) (Some err)])"
proof -
  let ?d = "destination_dir w out"
  let ?cs = "export_commands t ?d"
  obtain r0 w0 where m: "os_makedirs ?d w = (r0, w0)" by fastforce
  note t0 = os_makedirs_trace [OF m]
  show ?thesis
  proof (cases r0)
    case (Inl err)
    with assms m have "r = Inl err" "w' = w0"
      by (simp_all add: collect_information_steps bind_io_def)
    with t0 Inl have "r = Inl err \<and> new_events w w' = [Makedirs ?d (Some err)]"
      by (simp add: outcome_def new_events_def)
    then show ?thesis by blast
  next
    case (Inr u)
    with assms m have rest: "execute_all e ?cs w0 = (r, w')"
      by (simp add: collect_information_steps bind_io_def)
    from t0 Inr have t0': "trace w0 = trace w @ [Makedirs ?d None]"
      by (simp add: outcome_def)
    have len: "length ?cs = 4" by (simp add: export_commands_def)
    from execute_all_trace [OF rest] show ?thesis
    proof
      assume "r = Inr () \<and> trace w' = trace w0 @ map (\<lambda>c. Executed c None) ?cs"
      then have "r = Inr () \<and> new_events w w' = Makedirs ?d None # map (\<lambda>c. Executed c None) ?cs"
        using t0' by (simp add: new_events_def)
      then show ?thesis by blast
    next
      assume "\<exists>err n. n < length ?cs \<and> r = Inl err
             \<and> trace w' = trace w0 @ map (\<lambda>c. Executed c None) (take n ?cs)
                             @ [Executed (?cs ! n) (Some err)]"
      then obtain err n where "n < 4" "r = Inl err"
        "trace w' = trace w0 @ map (\<lambda>c. Executed c None) (take n ?cs)
                             @ [Executed (?cs ! n) (Some err)]"
        unfolding len by blast
      then have "n < 4 \<and> r = Inl err
             \<and> new_events w w' = Makedirs ?d None # map (\<lambda>c. Executed c None) (take n ?cs)
                  @ [Executed (?cs ! n) (Some err)]"
        using t0' by (simp add: new_events_def)
      then show ?thesis by blast
    qed
  qed
qed

theorem run_stops_at_first_failure_witness:
  "fst (collect_information reference_engine ''electric_vehicle_population_data'' ''out''
          loaded_world) = Inr ()
   \<and> new_events loaded_world
        (snd (collect_information reference_engine ''electric_vehicle_population_data'' ''out''
                loaded_world))
       = Makedirs ''out'' None
         # map (\<lambda>c. Executed c None)
             (export_commands ''electric_vehicle_population_data'' ''out'')"
  using run_stops_at_first_failure [where e = reference_engine
      and t = "''electric_vehicle_population_data''" and out = "''out''" and w = loaded_world,
      OF surjective_pairing]
    sample_run_returns
  by (simp add: destination_dir_def)

text \<open>
  Against the independence of the exports: with a directory in the place of the first
  export's file, the first export raises, the call ends there, and the second export,
  which succeeds when sent alone, is never sent and leaves no file.
\<close>

theorem later_exports_not_attempted_counterexample:
  "fst (collect_information reference_engine ''electric_vehicle_population_data'' ''out''
          blocked_world) = Inl IOException
   \<and> new_events blocked_world
        (snd (collect_information reference_engine ''electric_vehicle_population_data'' ''out''
                blocked_world))
       = [Makedirs ''out'' None,
          Executed (CopyTo VehiclesPerCity ''electric_vehicle_population_data''
                      ''out/vehicles_per_city.parquet'') (Some IOException)]
   \<and> map_of (files (snd (collect_information reference_engine
                ''electric_vehicle_population_data'' ''out'' blocked_world)))
        ''out/three_most_popular_vehicles.parquet'' = None
   \<and> fst (conn_execute reference_engine
            (CopyTo ThreeMostPopularVehicles ''electric_vehicle_population_data''
               ''out/three_most_popular_vehicles.parquet'') blocked_world) = Inr ()"
  by code_simp

subsection \<open>The destination directory\<close>

text \<open>
  Claim C10. With an empty \<open>output_dir\<close> the destination is \<^verbatim>\<open>output/\<close> followed by the
  clock's reading in the format \<^verbatim>\<open>%Y-%m-%d_%H-%M-%S\<close>; otherwise it is \<open>output_dir\<close>. Every
  call first runs \<^verbatim>\<open>os.makedirs\<close> on the destination. That call does not fail and changes
  no file when the destination is already a directory, and it succeeds whenever neither
  the destination nor a directory above it is a regular file. When it succeeds the
  destination is a directory (with the directories above it, if it was not there before)
  in the world in which the exports then run, and its event precedes theirs; when it
  raises, the call ends with that exception and no export is sent.
\<close>

theorem destination_made_before_exports:
  assumes "collect_information e t out w = (r, w')"
  shows "destination_dir w out = (if out = [] then ''output/'' @ strftime (clock w) else out)
       \<and> (\<exists>r0 w0. os_makedirs (destination_dir w out) w = (r0, w0)
            \<and> (map_of (files w) (destination_dir w out) = Some Directory \<longrightarrow>
                  r0 = Inr () \<and> files w0 = files w)
            \<and> (list_all (\<lambda>p. \<not> is_file (files w) p)
                  (ancestors (destination_dir w out) @ [destination_dir w out]) \<longrightarrow>
                  r0 = Inr ())
            \<and> (r0 = Inr () \<longrightarrow>
                  map_of (files w0) (destination_dir w out) = Some Directory
                  \<and> (map_of (files w) (destination_dir w out) \<noteq> Some Directory \<longrightarrow>
                       list_all (\<lambda>a. map_of (files w0) a = Some Directory)
                         (ancestors (destination_dir w out)))
                  \<and> execute_all e (export_commands t (destination_dir w out)) w0 = (r, w')
                  \<and> (\<exists>evs. new_events w w' = Makedirs (destination_dir w out) None # evs))
            \<and> (\<forall>err. r0 = Inl err \<longrightarrow>
                  r = Inl err \<and> files w' = files w
                  \<and> new_events w w' = [Makedirs (destination_dir w out) (Some err)]))"
proof -
  let ?d = "destination_dir w out"
  have 1: "?d = (if out = [] then ''output/'' @ strftime (clock w) else out)"
    by (simp add: destination_dir_def default_destination)
  obtain r0 w0 where m: "os_makedirs ?d w = (r0, w0)" by fastforce
  have 2: "r0 = Inr () \<and> files w0 = files w" if "map_of (files w) ?d = Some Directory"
    using os_makedirs_existing [OF that] m by simp
  have 3: "r0 = Inr ()" if "list_all (\<lambda>p. \<not> is_file (files w) p) (ancestors ?d @ [?d])"
  proof (cases r0)
    case (Inl err)
    with m os_makedirs_raises [of ?d w err w0] that show ?thesis
      by (auto simp: list_all_iff)
  next
    case (Inr u)
    then show ?thesis by simp
  qed
  have 4: "map_of (files w0) ?d = Some Directory
         \<and> (map_of (files w) ?d \<noteq> Some Directory \<longrightarrow>
              list_all (\<lambda>a. map_of (files w0) a = Some Directory) (ancestors ?d))
         \<and> execute_all e (export_commands t ?d) w0 = (r, w')
         \<and> (\<exists>evs. new_events w w' = Makedirs ?d None # evs)"
    if ok: "r0 = Inr ()"
  proof -
    from m ok have m': "os_makedirs ?d w = (Inr (), w0)" by simp
    from assms m' have rest: "execute_all e (export_commands t ?d) w0 = (r, w')"
      by (simp add: collect_information_steps bind_io_def)
    have t0: "trace w0 = trace w @ [Makedirs ?d None]"
      using os_makedirs_trace [OF m'] by (simp add: outcome_def)
    from execute_all_trace [OF rest] obtain evs where "trace w' = trace w0 @ evs"
      by auto
    with t0 have "new_events w w' = Makedirs ?d None # evs"
      by (simp add: new_events_def)
    with os_makedirs_returns [OF m'] rest show ?thesis by blast
  qed
  have 5: "r = Inl err \<and> files w' = files w \<and> new_events w w' = [Makedirs ?d (Some err)]"
    if bad: "r0 = Inl err" for err
  proof -
    from m bad have m': "os_makedirs ?d w = (Inl err, w0)" by simp
    from assms m' have "r = Inl err" "w' = w0"
      by (simp_all add: collect_information_steps bind_io_def)
    with os_makedirs_raises [OF m'] show ?thesis
      by (simp add: new_events_def)
  qed
  from 1 m 2 3 4 5 show ?thesis by blast
qed

theorem destination_made_before_exports_witness:
  "destination_dir loaded_world [] = ''output/2024-03-07_09-05-02''"
  using destination_made_before_exports [where e = reference_engine
      and t = "''electric_vehicle_population_data''" and out = "[]" and w = loaded_world,
      OF surjective_pairing]
  by (simp add: sample_clock)

end
